theory Spec2Isabelle
  imports Complex_Main
begin

section \<open>Data model\<close>

text \<open>
  The repository is one module, \<^verbatim>\<open>import_data.py\<close>: \<^verbatim>\<open>convert\<close> turns the two
  hand tracks of a MIDI file into a boolean array of shape (windows, 2, 88) and saves it,
  and \<^verbatim>\<open>Dataset\<close> loads the saved arrays and serves random batches.

  Python integers are \<open>int\<close>. Python floats (note times, \<^verbatim>\<open>ms_window\<close>,
  \<^verbatim>\<open>samples_per_sec\<close>) are idealised as rationals: \<^verbatim>\<open>math.floor\<close> and
  \<^verbatim>\<open>math.ceil\<close> are the exact floor and ceiling, and rounding in the multiplication
  is not modelled. Exceptions are values of \<open>error\<close>; a function that can raise returns
  \<open>error + 'a\<close> with \<open>Inl\<close> the exception.
\<close>

datatype error =
    FileNotFoundError
  | ZeroDivisionError
  | IndexError
  | ValueError
  | OSError

text \<open>
  What the code reads of \<^verbatim>\<open>pretty_midi\<close>: a note has \<^verbatim>\<open>start\<close>, \<^verbatim>\<open>end\<close> and
  \<^verbatim>\<open>pitch\<close>, an instrument has \<^verbatim>\<open>notes\<close>, a parsed file has \<^verbatim>\<open>instruments\<close> and
  \<^verbatim>\<open>get_end_time()\<close>. The library is not part of the repository, so the value that
  \<^verbatim>\<open>get_end_time()\<close> returns is the field \<open>end_time\<close> of the parsed file.
\<close>

record Note =
  note_start :: rat
  note_end :: rat
  pitch :: int

record Instrument =
  "notes" :: "Note list"

record PrettyMIDI =
  instruments :: "Instrument list"
  end_time :: rat

text \<open>A boolean array indexed [window, hand, pitch offset].\<close>

type_synonym pianoroll = "bool list list list"

section \<open>numpy indexing\<close>

text \<open>\<^verbatim>\<open>np.zeros((n, 2, 88), dtype=np.bool)\<close>; a negative dimension raises ValueError.\<close>

definition zeros :: "int \<Rightarrow> error + pianoroll" where
  "zeros n = (if n < 0 then Inl ValueError
              else Inr (replicate (nat n) (replicate 2 (replicate 88 False))))"

text \<open>
  An integer index \<open>i\<close> on an axis of size \<open>n\<close>: a negative index counts from the end,
  and an index outside \<open>[-n, n)\<close> raises IndexError.
\<close>

definition norm_index :: "int \<Rightarrow> nat \<Rightarrow> error + nat" where
  "norm_index i n =
     (if i < - int n \<or> int n \<le> i then Inl IndexError
      else Inr (nat (if i < 0 then i + int n else i)))"

text \<open>
  A bound of a slice \<^verbatim>\<open>a[lo:hi]\<close> on an axis of size \<open>n\<close>: a negative bound counts
  from the end, and the result is clipped to \<open>[0, n]\<close>; a slice never raises.
\<close>

definition slice_bound :: "int \<Rightarrow> nat \<Rightarrow> nat" where
  "slice_bound i n = (if i < 0 then nat (max 0 (i + int n)) else min (nat i) n)"

text \<open>\<^verbatim>\<open>hands[lo:hi, hand, k] = True\<close> with the bounds and the indices already normalised.\<close>

definition assign_true :: "pianoroll \<Rightarrow> nat \<Rightarrow> nat \<Rightarrow> nat \<Rightarrow> nat \<Rightarrow> pianoroll" where
  "assign_true hands lo hi hand k =
     map (\<lambda>w. if lo \<le> w \<and> w < hi
               then (hands ! w)[hand := (hands ! w ! hand)[k := True]]
               else hands ! w)
         [0..<length hands]"

section \<open>The encoder: the body of convert for one file\<close>

text \<open>
  Lines 50 to 52, one note:
  \<^verbatim>\<open>
  start = int(math.floor(note.start * samples_per_sec))
  end = int(math.ceil(note.end * samples_per_sec))
  hands[start:end, hand, note.pitch - 21] = True
  \<close>
\<close>

definition set_note :: "pianoroll \<Rightarrow> rat \<Rightarrow> nat \<Rightarrow> Note \<Rightarrow> error + pianoroll" where
  "set_note hands samples_per_sec hand note =
     (let start = \<lfloor>note_start note * samples_per_sec\<rfloor>;
          end_w = \<lceil>note_end note * samples_per_sec\<rceil>
      in case norm_index (pitch note - 21) 88 of
           Inl e \<Rightarrow> Inl e
         | Inr k \<Rightarrow> Inr (assign_true hands (slice_bound start (length hands))
                           (slice_bound end_w (length hands)) hand k))"

text \<open>\<^verbatim>\<open>for note in midi_hand.notes\<close>\<close>

fun fill_notes :: "pianoroll \<Rightarrow> rat \<Rightarrow> nat \<Rightarrow> Note list \<Rightarrow> error + pianoroll" where
  "fill_notes hands samples_per_sec hand [] = Inr hands"
| "fill_notes hands samples_per_sec hand (note # rest) =
     (case set_note hands samples_per_sec hand note of
        Inl e \<Rightarrow> Inl e
      | Inr hands' \<Rightarrow> fill_notes hands' samples_per_sec hand rest)"

text \<open>\<^verbatim>\<open>for hand, midi_hand in enumerate(midi_data)\<close>\<close>

fun fill_hands :: "pianoroll \<Rightarrow> rat \<Rightarrow> (nat \<times> Instrument) list \<Rightarrow> error + pianoroll" where
  "fill_hands hands samples_per_sec [] = Inr hands"
| "fill_hands hands samples_per_sec ((hand, midi_hand) # rest) =
     (case fill_notes hands samples_per_sec hand (notes midi_hand) of
        Inl e \<Rightarrow> Inl e
      | Inr hands' \<Rightarrow> fill_hands hands' samples_per_sec rest)"

text \<open>
  Lines 37 to 52: the array computed from a parsed file.
  \<^verbatim>\<open>midi.instruments[0], midi.instruments[1]\<close> raises IndexError on a file with fewer
  than two instruments.
\<close>

definition encode :: "PrettyMIDI \<Rightarrow> rat \<Rightarrow> error + pianoroll" where
  "encode midi samples_per_sec =
     (if length (instruments midi) < 2 then Inl IndexError
      else
        let midi_data = [instruments midi ! 0, instruments midi ! 1];
            n_windows = \<lceil>end_time midi * samples_per_sec\<rceil>
        in case zeros n_windows of
             Inl e \<Rightarrow> Inl e
           | Inr hands \<Rightarrow> fill_hands hands samples_per_sec (zip [0..<2] midi_data))"

section \<open>Files, and convert\<close>

text \<open>
  The disk maps a file name to what the file holds: a MIDI file is held as what
  \<^verbatim>\<open>pretty_midi.PrettyMIDI\<close> parses from it, an \<^verbatim>\<open>.npy\<close> file as the array that
  \<^verbatim>\<open>np.save\<close> wrote and \<^verbatim>\<open>np.load\<close> reads. A name that is not in the map does not
  exist (directories are not files). \<open>log\<close> is what \<^verbatim>\<open>logging.debug\<close> has written.
\<close>

datatype file_content = MidiFile PrettyMIDI | NpyFile pianoroll

record world =
  disk :: "string \<rightharpoonup> file_content"
  log :: "string list"

text \<open>
  Two library functions are parameters: \<^verbatim>\<open>glob.glob\<close>, from a pattern to the names
  that match it, and the builtin \<^verbatim>\<open>str\<close> at the type of \<^verbatim>\<open>ms_window\<close>.
\<close>

record env =
  glob_glob :: "string \<Rightarrow> string list"
  str :: "rat \<Rightarrow> string"

text \<open>\<^verbatim>\<open>os.path.join\<close> of two components (posixpath).\<close>

definition os_path_join :: "string \<Rightarrow> string \<Rightarrow> string" where
  "os_path_join a b =
     (if b \<noteq> [] \<and> hd b = CHR ''/'' then b
      else if a = [] \<or> last a = CHR ''/'' then a @ b
      else a @ ''/'' @ b)"

definition get_files_from_path :: "env \<Rightarrow> world \<Rightarrow> string \<Rightarrow> string list \<Rightarrow> error + string list" where
  "get_files_from_path ev w path extensions =
     (if disk w path \<noteq> None then Inr [path]
      else
        let files = concat (map (\<lambda>file_type. glob_glob ev (os_path_join path file_type)) extensions)
        in if length files = 0 then Inl FileNotFoundError else Inr files)"

text \<open>\<^verbatim>\<open>midi_file + '_' + str(ms_window) + 'ms' + '.npy'\<close>\<close>

definition npy_name :: "env \<Rightarrow> string \<Rightarrow> rat \<Rightarrow> string" where
  "npy_name ev midi_file ms_window = midi_file @ ''_'' @ str ev ms_window @ ''ms'' @ ''.npy''"

text \<open>\<^verbatim>\<open>pretty_midi.PrettyMIDI(midi_file)\<close>: a missing file or one that is no MIDI file raises.\<close>

definition PrettyMIDI_open :: "world \<Rightarrow> string \<Rightarrow> error + PrettyMIDI" where
  "PrettyMIDI_open w midi_file =
     (case disk w midi_file of Some (MidiFile midi) \<Rightarrow> Inr midi | _ \<Rightarrow> Inl OSError)"

text \<open>\<^verbatim>\<open>'Converting file \'' + midi_file + '\'...'\<close>\<close>

definition converting_msg :: "string \<Rightarrow> string" where
  "converting_msg midi_file = ''Converting file '' @ [CHR 0x27] @ midi_file @ [CHR 0x27] @ ''...''"

text \<open>
  The loop of \<^verbatim>\<open>convert\<close> over \<^verbatim>\<open>midi_files\<close>, lines 31 to 55. A file is parsed,
  logged, encoded and saved when \<^verbatim>\<open>overwrite or not os.path.exists(npy_file)\<close>;
  otherwise nothing is done for it.
\<close>

fun convert_files :: "env \<Rightarrow> rat \<Rightarrow> rat \<Rightarrow> bool \<Rightarrow> string list \<Rightarrow> world \<Rightarrow> error + world" where
  "convert_files ev ms_window samples_per_sec overwrite [] w = Inr w"
| "convert_files ev ms_window samples_per_sec overwrite (midi_file # rest) w =
     (let npy_file = npy_name ev midi_file ms_window in
      if overwrite \<or> disk w npy_file = None then
        (case PrettyMIDI_open w midi_file of
           Inl e \<Rightarrow> Inl e
         | Inr midi \<Rightarrow>
             (case encode midi samples_per_sec of
                Inl e \<Rightarrow> Inl e
              | Inr hands \<Rightarrow>
                  convert_files ev ms_window samples_per_sec overwrite rest
                    (w\<lparr>log := log w @ [converting_msg midi_file],
                       disk := (disk w)(npy_file \<mapsto> NpyFile hands)\<rparr>)))
      else convert_files ev ms_window samples_per_sec overwrite rest w)"

text \<open>\<^verbatim>\<open>1000 / ms_window\<close> raises ZeroDivisionError when \<^verbatim>\<open>ms_window\<close> is 0.\<close>

definition convert :: "env \<Rightarrow> string \<Rightarrow> rat \<Rightarrow> bool \<Rightarrow> world \<Rightarrow> error + world" where
  "convert ev path ms_window overwrite w =
     (case get_files_from_path ev w path [''*.mid'', ''*.midi''] of
        Inl e \<Rightarrow> Inl e
      | Inr midi_files \<Rightarrow>
          if ms_window = 0 then Inl ZeroDivisionError
          else convert_files ev ms_window (1000 / ms_window) overwrite midi_files w)"

section \<open>Dataset\<close>

text \<open>
  \<^verbatim>\<open>self.data\<close> is a float array: \<^verbatim>\<open>np.zeros\<close> without a dtype is float64 and the
  concatenation promotes the loaded booleans to 0.0 and 1.0. A numpy array is
  rectangular; a nested list that is not (see \<open>has_shape\<close> below) stands for no array.
\<close>

record Dataset =
  n_windows_past :: int
  data :: "rat list list list"

definition zeros_float :: "int \<Rightarrow> error + rat list list list" where
  "zeros_float n = (if n < 0 then Inl ValueError
                    else Inr (replicate (nat n) (replicate 2 (replicate 88 0))))"

definition np_load :: "world \<Rightarrow> string \<Rightarrow> error + pianoroll" where
  "np_load w npy_file =
     (case disk w npy_file of Some (NpyFile a) \<Rightarrow> Inr a | _ \<Rightarrow> Inl OSError)"

fun load_all :: "world \<Rightarrow> string list \<Rightarrow> error + pianoroll list" where
  "load_all w [] = Inr []"
| "load_all w (npy_file # rest) =
     (case np_load w npy_file of
        Inl e \<Rightarrow> Inl e
      | Inr a \<Rightarrow> (case load_all w rest of Inl e \<Rightarrow> Inl e | Inr as \<Rightarrow> Inr (a # as)))"

text \<open>The trailing dimensions (2, 88) that \<^verbatim>\<open>np.concatenate\<close> along axis 0 requires.\<close>

definition has_shape :: "'a list list list \<Rightarrow> bool" where
  "has_shape a = (\<forall>win \<in> set a. length win = 2 \<and> (\<forall>row \<in> set win. length row = 88))"

definition to_float :: "pianoroll \<Rightarrow> rat list list list" where
  "to_float a = map (map (map (\<lambda>b. if b then 1 else 0))) a"

text \<open>
  \<^verbatim>\<open>Dataset.__init__\<close>: the first \<^verbatim>\<open>np.zeros\<close> is evaluated before the files are
  loaded; arrays whose trailing dimensions differ cannot be concatenated (ValueError).
\<close>

definition Dataset_init :: "env \<Rightarrow> world \<Rightarrow> string \<Rightarrow> int \<Rightarrow> error + Dataset" where
  "Dataset_init ev w path n_past =
     (case get_files_from_path ev w path [''*.npy''] of
        Inl e \<Rightarrow> Inl e
      | Inr npy_files \<Rightarrow>
          (case zeros_float n_past of
             Inl e \<Rightarrow> Inl e
           | Inr pad \<Rightarrow>
               (case load_all w npy_files of
                  Inl e \<Rightarrow> Inl e
                | Inr arrays \<Rightarrow>
                    if \<exists>a \<in> set arrays. \<not> has_shape a then Inl ValueError
                    else Inr \<lparr>n_windows_past = n_past,
                              data = pad @ to_float (concat arrays) @ pad\<rparr>)))"

section \<open>next_batch\<close>

text \<open>
  The module \<^verbatim>\<open>random\<close> is global state. It is modelled as the sequence of raw
  numbers the generator will produce: \<^verbatim>\<open>random.randrange(n)\<close> consumes the first one
  and reduces it into \<open>[0, n)\<close>, so every value of the range is drawn by some generator
  and no other value by any. \<^verbatim>\<open>randrange\<close> raises ValueError on an empty range.
\<close>

type_synonym rng = "nat \<Rightarrow> nat"

definition randrange :: "int \<Rightarrow> rng \<Rightarrow> error + (int \<times> rng)" where
  "randrange n g = (if n \<le> 0 then Inl ValueError
                    else Inr (int (g 0) mod n, \<lambda>i. g (Suc i)))"

text \<open>\<^verbatim>\<open>a[lo:hi]\<close> on the first axis.\<close>

definition slice :: "'a list \<Rightarrow> int \<Rightarrow> int \<Rightarrow> 'a list" where
  "slice xs lo hi =
     (let l = slice_bound lo (length xs); h = slice_bound hi (length xs)
      in take (h - l) (drop l xs))"

text \<open>\<^verbatim>\<open>np.zeros((n_samples, n_windows_past + 1, 2, 88), dtype=np.bool)\<close>\<close>

definition zeros4 :: "int \<Rightarrow> int \<Rightarrow> error + pianoroll list" where
  "zeros4 n m =
     (if n < 0 \<or> m < 0 then Inl ValueError
      else Inr (replicate (nat n) (replicate (nat m) (replicate 2 (replicate 88 False)))))"

text \<open>The cast of an assignment of floats into a boolean array: nonzero is True.\<close>

definition to_bool :: "rat list list list \<Rightarrow> pianoroll" where
  "to_bool a = map (map (map (\<lambda>x. x \<noteq> 0))) a"

text \<open>
  \<^verbatim>\<open>hands[sample, :, :, :] = src\<close>, where the target has \<open>m\<close> windows: a source of
  \<open>m\<close> windows is copied, a source of one window is broadcast, any other raises
  ValueError.
\<close>

definition assign_sample :: "pianoroll list \<Rightarrow> nat \<Rightarrow> nat \<Rightarrow> rat list list list \<Rightarrow> error + pianoroll list" where
  "assign_sample hands sample m src =
     (if length src = m then Inr (hands[sample := to_bool src])
      else if length src = 1 then Inr (hands[sample := replicate m (hd (to_bool src))])
      else Inl ValueError)"

text \<open>
  \<^verbatim>\<open>
  for sample in range(n_samples):
      start = random.randrange(self.data.shape[0] - self.n_windows_past)
      hands[sample, :, :, :] = self.data[start:start + self.n_windows_past + 1, :, :]
  \<close>
  The object \<^verbatim>\<open>self\<close> and the generator are threaded through the loop.
\<close>

fun draw_samples :: "nat list \<Rightarrow> pianoroll list \<Rightarrow> Dataset \<times> rng \<Rightarrow> error + (pianoroll list \<times> Dataset \<times> rng)" where
  "draw_samples [] hands (self, g) = Inr (hands, self, g)"
| "draw_samples (sample # rest) hands (self, g) =
     (case randrange (int (length (data self)) - n_windows_past self) g of
        Inl e \<Rightarrow> Inl e
      | Inr (start, g') \<Rightarrow>
          (case assign_sample hands sample (nat (n_windows_past self + 1))
                  (slice (data self) start (start + n_windows_past self + 1)) of
             Inl e \<Rightarrow> Inl e
           | Inr hands' \<Rightarrow> draw_samples rest hands' (self, g')))"

datatype float = NaN | Finite rat

text \<open>\<^verbatim>\<open>hands[:, :, h, :]\<close> and \<^verbatim>\<open>a[:, -1, :]\<close>\<close>

definition hand_of :: "nat \<Rightarrow> pianoroll list \<Rightarrow> bool list list list" where
  "hand_of h hands = map (map (\<lambda>win. win ! h)) hands"

definition last_window :: "bool list list list \<Rightarrow> bool list list" where
  "last_window a = map last a"

definition logical_or :: "bool list list list \<Rightarrow> bool list list list \<Rightarrow> bool list list list" where
  "logical_or a b = map2 (map2 (map2 (\<or>))) a b"

definition logical_and :: "bool list list list \<Rightarrow> bool list list list \<Rightarrow> bool list list list" where
  "logical_and a b = map2 (map2 (map2 (\<and>))) a b"

text \<open>\<^verbatim>\<open>batch_y[mask] = v\<close> for a boolean mask of the shape of \<^verbatim>\<open>batch_y\<close>.\<close>

definition mask_assign :: "float list list \<Rightarrow> bool list list \<Rightarrow> float \<Rightarrow> float list list" where
  "mask_assign y msk v = map2 (map2 (\<lambda>old m. if m then v else old)) y msk"

text \<open>
  \<^verbatim>\<open>Dataset.next_batch\<close>. The index \<^verbatim>\<open>-1\<close> on the window axis raises IndexError when
  that axis is empty.
\<close>

definition next_batch ::
  "int \<Rightarrow> Dataset \<times> rng \<Rightarrow> error + ((bool list list list \<times> float list list) \<times> Dataset \<times> rng)" where
  "next_batch n_samples st =
     (case zeros4 n_samples (n_windows_past (fst st) + 1) of
        Inl e \<Rightarrow> Inl e
      | Inr hands0 \<Rightarrow>
          (case draw_samples [0..<nat n_samples] hands0 st of
             Inl e \<Rightarrow> Inl e
           | Inr (hands, st') \<Rightarrow>
               let batch_x = logical_or (hand_of 0 hands) (hand_of 1 hands);
                   both = logical_and (hand_of 0 hands) (hand_of 1 hands);
                   batch_y = replicate (nat n_samples) (replicate 88 NaN)
               in if n_windows_past (fst st') + 1 = 0 then Inl IndexError
                  else
                    let batch_y = mask_assign batch_y (last_window (hand_of 0 hands)) (Finite (- 1));
                        batch_y = mask_assign batch_y (last_window (hand_of 1 hands)) (Finite 1);
                        batch_y = mask_assign batch_y (last_window both) (Finite 0)
                    in Inr ((batch_x, batch_y), st')))"

section \<open>Well-formed input\<close>

text \<open>
  A note as a MIDI file gives it: it starts at or after time 0 and ends after it starts,
  and its pitch is one of the 88 keys, 21 to 108, so that \<^verbatim>\<open>note.pitch - 21\<close> is an
  offset in 0..87.
\<close>

definition valid_note :: "Note \<Rightarrow> bool" where
  "valid_note n = (0 \<le> note_start n \<and> note_start n < note_end n \<and> 21 \<le> pitch n \<and> pitch n \<le> 108)"

text \<open>The note \<open>n\<close> is on at window \<open>w\<close> and pitch offset \<open>off\<close>, at \<open>rate\<close> windows per second.\<close>

definition note_covers :: "rat \<Rightarrow> Note \<Rightarrow> nat \<Rightarrow> nat \<Rightarrow> bool" where
  "note_covers rate n w off =
     (pitch n - 21 = int off \<and> \<lfloor>note_start n * rate\<rfloor> \<le> int w \<and> int w < \<lceil>note_end n * rate\<rceil>)"

text \<open>
  A file with (at least) the two hand tracks, all of whose notes are well formed, and
  whose end time is not negative.
\<close>

definition valid_tracks :: "PrettyMIDI \<Rightarrow> bool" where
  "valid_tracks midi =
     (2 \<le> length (instruments midi) \<and> 0 \<le> end_time midi \<and>
      (\<forall>n \<in> set (notes (instruments midi ! 0) @ notes (instruments midi ! 1)). valid_note n))"


text \<open>
  Hand 0 plays pitch 60 from 0.000 s to 0.050 s, hand 1 plays pitch 72 from 0.060 s to
  0.100 s.
\<close>

definition scenario_midi :: PrettyMIDI where
  "scenario_midi =
     \<lparr>instruments =
        [\<lparr>notes = [\<lparr>note_start = 0, note_end = 1 / 20, pitch = 60\<rparr>]\<rparr>,
         \<lparr>notes = [\<lparr>note_start = 3 / 50, note_end = 1 / 10, pitch = 72\<rparr>]\<rparr>],
      end_time = 1 / 10\<rparr>"

section \<open>Well-formed datasets\<close>

text \<open>
  What \<^verbatim>\<open>Dataset.__init__\<close> establishes and \<^verbatim>\<open>next_batch\<close> relies on: the context
  length is not negative and \<^verbatim>\<open>self.data\<close> has shape (L, 2, 88).
\<close>

definition dataset_ok :: "Dataset \<Rightarrow> bool" where
  "dataset_ok self = (0 \<le> n_windows_past self \<and> has_shape (data self))"

text \<open>The size of the range that \<^verbatim>\<open>randrange\<close> draws from: \<^verbatim>\<open>self.data.shape[0] - self.n_windows_past\<close>.\<close>

definition start_range :: "Dataset \<Rightarrow> int" where
  "start_range self = int (length (data self)) - n_windows_past self"

text \<open>The start index that the call of \<^verbatim>\<open>randrange\<close> for sample \<open>s\<close> returns, from generator \<open>g\<close>.\<close>

definition drawn_start :: "Dataset \<Rightarrow> rng \<Rightarrow> nat \<Rightarrow> int" where
  "drawn_start self g s = int (g s) mod start_range self"

text \<open>The windows \<^verbatim>\<open>self.data[start:start + n_windows_past + 1]\<close> of sample \<open>s\<close>, as booleans.\<close>

definition sample_windows :: "Dataset \<Rightarrow> rng \<Rightarrow> nat \<Rightarrow> pianoroll" where
  "sample_windows self g s =
     to_bool (take (nat (n_windows_past self + 1)) (drop (nat (drawn_start self g s)) (data self)))"

text \<open>Hand \<open>h\<close> is on at pitch offset \<open>p\<close> in window \<open>w\<close> of \<^verbatim>\<open>self.data\<close>.\<close>

definition active :: "Dataset \<Rightarrow> int \<Rightarrow> nat \<Rightarrow> nat \<Rightarrow> bool" where
  "active self w h p = (data self ! nat w ! h ! p \<noteq> 0)"

text \<open>
  A dataset with two windows of context. Between the two windows of padding at either
  end, pitch offset 39 is played by hand 0 alone, then by both hands, then by hand 1
  alone.
\<close>

definition silent :: "rat list" where
  "silent = replicate 88 0"

definition key39 :: "rat list" where
  "key39 = (replicate 88 0)[39 := 1]"

definition scenario_dataset :: Dataset where
  "scenario_dataset =
     \<lparr>n_windows_past = 2,
      data = [[silent, silent], [silent, silent],
              [key39, silent], [key39, key39], [silent, key39],
              [silent, silent], [silent, silent]]\<rparr>"



text \<open>
  A directory \<^verbatim>\<open>data\<close> with two MIDI files that both hold the scenario's tracks; the
  second one already has an artifact for 20 ms, an array without windows.
\<close>

definition scenario_env :: env where
  "scenario_env =
     \<lparr>glob_glob = (\<lambda>pattern. if pattern = ''data/*.mid'' then [''data/a.mid'', ''data/b.mid''] else []),
      str = (\<lambda>ms_window. ''20'')\<rparr>"

definition scenario_world :: world where
  "scenario_world =
     \<lparr>disk = [''data/a.mid'' \<mapsto> MidiFile scenario_midi,
              ''data/b.mid'' \<mapsto> MidiFile scenario_midi,
              ''data/b.mid_20ms.npy'' \<mapsto> NpyFile []],
      log = []\<rparr>"




section \<open>Properties of the encoder\<close>

lemma nth_upd: "xs[i := x] ! j = (if i = j \<and> i < length xs then x else xs ! j)"
  by (cases "i < length xs") (simp_all add: nth_list_update list_update_beyond)

lemma length_assign_true: "length (assign_true hands lo hi hand k) = length hands"
  by (simp add: assign_true_def)

lemma has_shape_nth: "has_shape a \<Longrightarrow> w < length a \<Longrightarrow> length (a ! w) = 2"
  by (simp add: has_shape_def)

lemma has_shape_nth_nth:
  assumes "has_shape a" "w < length a" "h < 2"
  shows "length (a ! w ! h) = 88"
proof -
  have win: "a ! w \<in> set a" using assms(2) by simp
  then have "length (a ! w) = 2" using assms(1) by (simp add: has_shape_def)
  then have "a ! w ! h \<in> set (a ! w)" using assms(3) by simp
  then show ?thesis using assms(1) win unfolding has_shape_def by blast
qed

lemma has_shapeI:
  "(\<And>w. w < length a \<Longrightarrow> length (a ! w) = 2 \<and> (\<forall>h<2. length (a ! w ! h) = 88)) \<Longrightarrow> has_shape a"
  unfolding has_shape_def by (metis in_set_conv_nth)

lemma has_shape_assign_true: "has_shape hands \<Longrightarrow> has_shape (assign_true hands lo hi hand k)"
proof (rule has_shapeI)
  fix w assume h: "has_shape hands" and w: "w < length (assign_true hands lo hi hand k)"
  then have w': "w < length hands" by (simp add: assign_true_def)
  show "length (assign_true hands lo hi hand k ! w) = 2 \<and>
        (\<forall>h<2. length (assign_true hands lo hi hand k ! w ! h) = 88)"
    using h w' by (auto simp add: assign_true_def has_shape_nth has_shape_nth_nth nth_upd)
qed

lemma assign_true_cell:
  assumes "has_shape hands" "w < length hands" "h < 2" "p < 88" "hand < 2" "k < 88"
  shows "assign_true hands lo hi hand k ! w ! h ! p
         = (hands ! w ! h ! p \<or> (lo \<le> w \<and> w < hi \<and> h = hand \<and> p = k))"
  using assms
  by (auto simp add: assign_true_def has_shape_nth has_shape_nth_nth nth_list_update)

lemma has_shape_replicate: "has_shape (replicate n (replicate 2 (replicate 88 x)))"
  by (auto simp: has_shape_def)


lemma slice_bound_le: "slice_bound i n \<le> n"
  unfolding slice_bound_def by (cases "i < 0") auto

lemma slice_bound_nonneg: "0 \<le> i \<Longrightarrow> slice_bound i n = min (nat i) n"
  by (simp add: slice_bound_def)

lemma in_slice_window:
  assumes "0 \<le> lo" "0 \<le> hi" "w < n"
  shows "(slice_bound lo n \<le> w \<and> w < slice_bound hi n) = (lo \<le> int w \<and> int w < hi)"
  using assms by (auto simp add: slice_bound_nonneg)

lemma norm_index_offset:
  "21 \<le> p \<Longrightarrow> p \<le> 108 \<Longrightarrow> norm_index (p - 21) 88 = Inr (nat (p - 21))"
  by (simp add: norm_index_def)

lemma set_note_valid:
  assumes "valid_note n" "0 < rate" "has_shape hands" "hand < 2"
  shows "\<exists>hands'. set_note hands rate hand n = Inr hands' \<and> has_shape hands' \<and> length hands' = length hands
           \<and> (\<forall>w h off. w < length hands \<longrightarrow> h < 2 \<longrightarrow> off < 88 \<longrightarrow>
                hands' ! w ! h ! off = (hands ! w ! h ! off \<or> (h = hand \<and> note_covers rate n w off)))"
proof -
  let ?lo = "\<lfloor>note_start n * rate\<rfloor>" and ?hi = "\<lceil>note_end n * rate\<rceil>"
  let ?k = "nat (pitch n - 21)"
  let ?r = "assign_true hands (slice_bound ?lo (length hands)) (slice_bound ?hi (length hands)) hand ?k"
  have p: "21 \<le> pitch n" "pitch n \<le> 108" and s: "0 \<le> note_start n" "0 \<le> note_end n"
    using assms(1) by (auto simp: valid_note_def)
  have lo: "0 \<le> ?lo" using s(1) assms(2) by simp
  have "0 \<le> note_end n * rate" using s(2) assms(2) by simp
  then have hi: "0 \<le> ?hi" by (simp add: ceiling_le_iff le_ceiling_iff)
  have k: "?k < 88" using p by simp
  have eq: "set_note hands rate hand n = Inr ?r"
    by (simp add: set_note_def norm_index_offset[OF p])
  have cell: "?r ! w ! h ! off = (hands ! w ! h ! off \<or> (h = hand \<and> note_covers rate n w off))"
    if "w < length hands" "h < 2" "off < 88" for w h off
  proof -
    have "(off = ?k) = (pitch n - 21 = int off)" using p by auto
    then show ?thesis
      using assign_true_cell[OF assms(3) that assms(4) k] in_slice_window[OF lo hi that(1)]
      by (auto simp add: note_covers_def)
  qed
  show ?thesis
    using eq cell has_shape_assign_true[OF assms(3)] by (simp add: length_assign_true)
qed


lemma fill_notes_valid:
  assumes "\<forall>n \<in> set ns. valid_note n" "0 < rate" "has_shape hands" "hand < 2"
  shows "\<exists>hands'. fill_notes hands rate hand ns = Inr hands' \<and> has_shape hands' \<and> length hands' = length hands
           \<and> (\<forall>w h off. w < length hands \<longrightarrow> h < 2 \<longrightarrow> off < 88 \<longrightarrow>
                hands' ! w ! h ! off
                = (hands ! w ! h ! off \<or> (h = hand \<and> (\<exists>n \<in> set ns. note_covers rate n w off))))"
  using assms
proof (induction ns arbitrary: hands)
  case Nil
  then show ?case by simp
next
  case (Cons n ns)
  from Cons.prems have vn: "valid_note n" and vns: "\<forall>n \<in> set ns. valid_note n" by simp_all
  from set_note_valid[OF vn Cons.prems(2,3,4)] obtain h1 where
    h1: "set_note hands rate hand n = Inr h1" "has_shape h1" "length h1 = length hands"
    and c1: "\<And>w h off. w < length hands \<Longrightarrow> h < 2 \<Longrightarrow> off < 88 \<Longrightarrow>
                h1 ! w ! h ! off = (hands ! w ! h ! off \<or> (h = hand \<and> note_covers rate n w off))"
    by blast
  from Cons.IH[OF vns Cons.prems(2) h1(2) Cons.prems(4)] obtain h2 where
    h2: "fill_notes h1 rate hand ns = Inr h2" "has_shape h2" "length h2 = length h1"
    and c2: "\<And>w h off. w < length h1 \<Longrightarrow> h < 2 \<Longrightarrow> off < 88 \<Longrightarrow>
                h2 ! w ! h ! off = (h1 ! w ! h ! off \<or> (h = hand \<and> (\<exists>n \<in> set ns. note_covers rate n w off)))"
    by blast
  have "fill_notes hands rate hand (n # ns) = Inr h2" using h1(1) h2(1) by simp
  moreover have "length h2 = length hands" using h1(3) h2(3) by simp
  moreover have "h2 ! w ! h ! off
        = (hands ! w ! h ! off \<or> (h = hand \<and> (\<exists>m \<in> set (n # ns). note_covers rate m w off)))"
    if "w < length hands" "h < 2" "off < 88" for w h off
    using c1[OF that] c2[of w h off] that h1(3) by auto
  ultimately show ?case using h2(2) by blast
qed

lemma encode_valid:
  assumes "valid_tracks midi" "0 < rate"
  shows "\<exists>t. encode midi rate = Inr t \<and> has_shape t \<and> int (length t) = \<lceil>end_time midi * rate\<rceil>
           \<and> (\<forall>w h off. w < length t \<longrightarrow> h < 2 \<longrightarrow> off < 88 \<longrightarrow>
                t ! w ! h ! off = (\<exists>n \<in> set (notes (instruments midi ! h)). note_covers rate n w off))"
proof -
  let ?nw = "\<lceil>end_time midi * rate\<rceil>"
  let ?z = "replicate (nat ?nw) (replicate 2 (replicate 88 False))"
  have len: "2 \<le> length (instruments midi)" and et: "0 \<le> end_time midi"
    and v0: "\<forall>n \<in> set (notes (instruments midi ! 0)). valid_note n"
    and v1: "\<forall>n \<in> set (notes (instruments midi ! 1)). valid_note n"
    using assms(1) by (auto simp add: valid_tracks_def)
  have "0 \<le> end_time midi * rate" using et assms(2) by simp
  then have nw: "0 \<le> ?nw" by (simp add: le_ceiling_iff)
  have z: "zeros ?nw = Inr ?z" using nw by (simp add: zeros_def)
  have zc: "\<not> ?z ! w ! h ! off" if "w < length ?z" "h < 2" "off < 88" for w h off
    using that by simp
  from fill_notes_valid[OF v0 assms(2) has_shape_replicate, of 0 "nat ?nw" False] obtain h1 where
    h1: "fill_notes ?z rate 0 (notes (instruments midi ! 0)) = Inr h1" "has_shape h1" "length h1 = length ?z"
    and c1: "\<And>w h off. w < length ?z \<Longrightarrow> h < 2 \<Longrightarrow> off < 88 \<Longrightarrow>
                h1 ! w ! h ! off = (?z ! w ! h ! off \<or> (h = 0 \<and> (\<exists>n \<in> set (notes (instruments midi ! 0)). note_covers rate n w off)))"
    by auto
  from fill_notes_valid[OF v1 assms(2) h1(2), of 1] obtain h2 where
    h2: "fill_notes h1 rate 1 (notes (instruments midi ! 1)) = Inr h2" "has_shape h2" "length h2 = length h1"
    and c2: "\<And>w h off. w < length h1 \<Longrightarrow> h < 2 \<Longrightarrow> off < 88 \<Longrightarrow>
                h2 ! w ! h ! off = (h1 ! w ! h ! off \<or> (h = 1 \<and> (\<exists>n \<in> set (notes (instruments midi ! 1)). note_covers rate n w off)))"
    by auto
  have zip2: "zip [0..<2] [a, b] = [(0, a), (1, b)]" for a b :: Instrument
    by (simp add: upt_rec)
  have enc: "encode midi rate = Inr h2"
    using len z h1(1) h2(1) by (simp add: encode_def zip2)
  have l2: "int (length h2) = ?nw" using h1(3) h2(3) nw by simp
  have cell: "h2 ! w ! h ! off = (\<exists>n \<in> set (notes (instruments midi ! h)). note_covers rate n w off)"
    if "w < length h2" "h < 2" "off < 88" for w h off
  proof -
    have w: "w < length ?z" "w < length h1" using that(1) h1(3) h2(3) by simp_all
    have "h = 0 \<or> h = 1" using that(2) by auto
    then show ?thesis
      using c1[OF w(1) that(2,3)] c2[OF w(2) that(2,3)] zc[OF w(1) that(2,3)] by auto
  qed
  show ?thesis using enc h2(2) l2 cell by blast
qed







section \<open>Properties of next_batch\<close>

lemma drawn_start_bounds:
  assumes "0 < start_range self"
  shows "0 \<le> drawn_start self g s" and "drawn_start self g s < start_range self"
  using assms by (simp_all add: drawn_start_def)

lemma slice_inside:
  assumes "0 \<le> lo" "lo \<le> hi" "hi \<le> int (length xs)"
  shows "slice xs lo hi = take (nat (hi - lo)) (drop (nat lo) xs)"
    and "length (slice xs lo hi) = nat (hi - lo)"
proof -
  have "slice_bound lo (length xs) = nat lo" "slice_bound hi (length xs) = nat hi"
    using assms by (simp_all add: slice_bound_def)
  moreover have "nat hi - nat lo = nat (hi - lo)" using assms by simp
  ultimately show "slice xs lo hi = take (nat (hi - lo)) (drop (nat lo) xs)"
    by (simp add: slice_def)
  then show "length (slice xs lo hi) = nat (hi - lo)" using assms by simp
qed

lemma draw_samples_closed:
  assumes "0 \<le> n_windows_past self" "0 < start_range self" "distinct idx"
    "\<forall>i \<in> set idx. i < length hands"
  shows "\<exists>hands'. draw_samples idx hands (self, g) = Inr (hands', self, \<lambda>i. g (i + length idx)) \<and>
           length hands' = length hands \<and>
           (\<forall>j < length idx. hands' ! (idx ! j) = sample_windows self g j) \<and>
           (\<forall>s. s \<notin> set idx \<longrightarrow> hands' ! s = hands ! s)"
  using assms(3,4)
proof (induction idx arbitrary: hands g)
  case Nil
  then show ?case by simp
next
  case (Cons a idx)
  let ?P = "n_windows_past self"
  let ?start = "drawn_start self g 0"
  let ?g1 = "\<lambda>i. g (Suc i)"
  let ?h1 = "hands[a := sample_windows self g 0]"
  have b: "0 \<le> ?start" "?start < start_range self" using drawn_start_bounds[OF assms(2)] by simp_all
  have rr: "randrange (int (length (data self)) - ?P) g = Inr (?start, ?g1)"
    using assms(2) by (simp add: randrange_def drawn_start_def start_range_def)
  have hi: "?start + ?P + 1 \<le> int (length (data self))" using b(2) by (simp add: start_range_def)
  have lo: "?start \<le> ?start + ?P + 1" using assms(1) by simp
  have sl: "slice (data self) ?start (?start + ?P + 1) = take (nat (?P + 1)) (drop (nat ?start) (data self))"
    and ln: "length (slice (data self) ?start (?start + ?P + 1)) = nat (?P + 1)"
    using slice_inside[OF b(1) lo hi] by simp_all
  have asg: "assign_sample hands a (nat (?P + 1)) (slice (data self) ?start (?start + ?P + 1)) = Inr ?h1"
    using ln by (simp add: assign_sample_def sl sample_windows_def)
  have d: "distinct idx" "a \<notin> set idx" and al: "a < length hands" and il: "\<forall>i \<in> set idx. i < length ?h1"
    using Cons.prems by simp_all
  from Cons.IH[OF d(1) il, of ?g1] obtain h2 where
    h2: "draw_samples idx ?h1 (self, ?g1) = Inr (h2, self, \<lambda>i. g (Suc (i + length idx)))"
      "length h2 = length ?h1"
    and c: "\<And>j. j < length idx \<Longrightarrow> h2 ! (idx ! j) = sample_windows self ?g1 j"
    and o: "\<And>s. s \<notin> set idx \<Longrightarrow> h2 ! s = ?h1 ! s"
    by auto
  have sw: "sample_windows self ?g1 j = sample_windows self g (Suc j)" for j
    by (simp add: sample_windows_def drawn_start_def)
  have 1: "draw_samples (a # idx) hands (self, g) = Inr (h2, self, \<lambda>i. g (i + length (a # idx)))"
    using rr asg h2(1) by simp
  have 2: "h2 ! ((a # idx) ! j) = sample_windows self g j" if "j < length (a # idx)" for j
  proof (cases j)
    case 0
    then show ?thesis using o[OF d(2)] al by simp
  next
    case (Suc k)
    then show ?thesis using c[of k] that sw by simp
  qed
  have 3: "h2 ! s = hands ! s" if "s \<notin> set (a # idx)" for s
    using o[of s] that by simp
  show ?case using 1 2 3 h2(2) by auto
qed


lemma nth_map2:
  "i < length xs \<Longrightarrow> i < length ys \<Longrightarrow> map2 f xs ys ! i = f (xs ! i) (ys ! i)"
  by simp

lemma sample_windows_length:
  assumes "0 \<le> n_windows_past self" "0 < start_range self"
  shows "length (sample_windows self g s) = nat (n_windows_past self + 1)"
proof -
  have "drawn_start self g s + n_windows_past self + 1 \<le> int (length (data self))"
    using drawn_start_bounds(2)[OF assms(2), of g s] by (simp add: start_range_def)
  moreover have "0 \<le> drawn_start self g s" using drawn_start_bounds(1)[OF assms(2)] .
  ultimately show ?thesis using assms(1)
    by (simp add: sample_windows_def to_bool_def)
qed

lemma sample_windows_cell:
  assumes "dataset_ok self" "0 < start_range self" "j < nat (n_windows_past self + 1)" "h < 2"
  shows "length (sample_windows self g s ! j) = 2"
    and "length (sample_windows self g s ! j ! h) = 88"
    and "p < 88 \<Longrightarrow> sample_windows self g s ! j ! h ! p = active self (drawn_start self g s + int j) h p"
proof -
  let ?st = "drawn_start self g s"
  have P: "0 \<le> n_windows_past self" and sh: "has_shape (data self)"
    using assms(1) by (simp_all add: dataset_ok_def)
  have st: "0 \<le> ?st" using drawn_start_bounds(1)[OF assms(2)] .
  have "?st + n_windows_past self + 1 \<le> int (length (data self))"
    using drawn_start_bounds(2)[OF assms(2), of g s] by (simp add: start_range_def)
  then have w: "nat ?st + j < length (data self)" using assms(3) st by linarith
  have nn: "nat (?st + int j) = nat ?st + j" using st by simp
  have eq: "sample_windows self g s ! j = map (map (\<lambda>x. x \<noteq> 0)) (data self ! (nat ?st + j))"
    using w assms(3) by (simp add: sample_windows_def to_bool_def)
  show 2: "length (sample_windows self g s ! j) = 2"
    using eq has_shape_nth[OF sh w] by simp
  show 88: "length (sample_windows self g s ! j ! h) = 88"
    using eq has_shape_nth[OF sh w] has_shape_nth_nth[OF sh w assms(4)] assms(4) by simp
  show "sample_windows self g s ! j ! h ! p = active self (?st + int j) h p" if "p < 88"
    using eq has_shape_nth[OF sh w] has_shape_nth_nth[OF sh w assms(4)] assms(4) that
    by (simp add: active_def nn)
qed

lemma draw_samples_upt:
  assumes "0 \<le> n_windows_past self" "0 < start_range self" "length hands = n"
  shows "draw_samples [0..<n] hands (self, g)
         = Inr (map (sample_windows self g) [0..<n], self, \<lambda>i. g (i + n))"
proof -
  have "\<forall>i \<in> set [0..<n]. i < length hands" using assms(3) by simp
  from draw_samples_closed[OF assms(1,2) distinct_upt this, of g] obtain hands' where
    h: "draw_samples [0..<n] hands (self, g) = Inr (hands', self, \<lambda>i. g (i + n))"
       "length hands' = n"
    and c: "\<And>j. j < n \<Longrightarrow> hands' ! j = sample_windows self g j"
    using assms(3) by auto
  have "hands' = map (sample_windows self g) [0..<n]"
    using h(2) c by (intro nth_equalityI) simp_all
  then show ?thesis using h(1) by simp
qed


lemma mask_assign_nth:
  assumes "s < length y" "s < length m" "p < length (y ! s)" "p < length (m ! s)"
  shows "mask_assign y m v ! s ! p = (if m ! s ! p then v else y ! s ! p)"
  using assms by (simp add: mask_assign_def)

lemma mask_assign_length:
  "length (mask_assign y m v) = min (length y) (length m)"
  "s < length y \<Longrightarrow> s < length m \<Longrightarrow>
     length (mask_assign y m v ! s) = min (length (y ! s)) (length (m ! s))"
  by (simp_all add: mask_assign_def)

lemma next_batch_cells:
  assumes "dataset_ok self" "0 < start_range self" "0 \<le> n"
  shows "\<exists>x y. next_batch n (self, g) = Inr ((x, y), self, \<lambda>i. g (i + nat n)) \<and>
           length x = nat n \<and> length y = nat n \<and>
           (\<forall>s < nat n.
              length (x ! s) = nat (n_windows_past self + 1) \<and> length (y ! s) = 88 \<and>
              (\<forall>j < nat (n_windows_past self + 1). length (x ! s ! j) = 88 \<and>
                 (\<forall>p < 88. x ! s ! j ! p =
                    (active self (drawn_start self g s + int j) 0 p \<or>
                     active self (drawn_start self g s + int j) 1 p))) \<and>
              (\<forall>p < 88. y ! s ! p =
                 (let a0 = active self (drawn_start self g s + n_windows_past self) 0 p;
                      a1 = active self (drawn_start self g s + n_windows_past self) 1 p
                  in if a0 \<and> a1 then Finite 0 else if a1 then Finite 1
                     else if a0 then Finite (- 1) else NaN)))"
proof -
  let ?P = "n_windows_past self"
  let ?m = "nat (?P + 1)"
  let ?W = "sample_windows self g"
  let ?H = "map ?W [0..<nat n]"
  define H0 where "H0 = hand_of 0 ?H"
  define H1 where "H1 = hand_of 1 ?H"
  define B where "B = logical_and H0 H1"
  let ?X = "logical_or H0 H1"
  let ?B = "B"
  let ?Y0 = "replicate (nat n) (replicate 88 NaN)"
  let ?Y1 = "mask_assign ?Y0 (last_window H0) (Finite (- 1))"
  let ?Y2 = "mask_assign ?Y1 (last_window H1) (Finite 1)"
  let ?Y3 = "mask_assign ?Y2 (last_window B) (Finite 0)"
  have P: "0 \<le> ?P" using assms(1) by (simp add: dataset_ok_def)
  have z: "zeros4 n (?P + 1) = Inr (replicate (nat n) (replicate ?m (replicate 2 (replicate 88 False))))"
    using P assms(3) by (simp add: zeros4_def)
  have nb: "next_batch n (self, g) = Inr ((?X, ?Y3), self, \<lambda>i. g (i + nat n))"
    unfolding B_def H0_def H1_def
    using P by (simp add: next_batch_def z draw_samples_upt[OF P assms(2)] Let_def)
  have lH: "length H0 = nat n" "length H1 = nat n" by (simp_all add: H0_def H1_def hand_of_def)
  have lX: "length ?X = nat n" by (simp add: logical_or_def lH)
  have lB: "length ?B = nat n" by (simp add: B_def logical_and_def lH)
  have lL: "length (last_window a) = length a" for a :: "bool list list list"
    by (simp add: last_window_def)
  have lY: "length ?Y3 = nat n" by (simp add: mask_assign_length lL lH lB)
  have per: "length (?X ! s) = ?m \<and> length (?Y3 ! s) = 88 \<and>
              (\<forall>j < ?m. length (?X ! s ! j) = 88 \<and>
                 (\<forall>p < 88. ?X ! s ! j ! p =
                    (active self (drawn_start self g s + int j) 0 p \<or>
                     active self (drawn_start self g s + int j) 1 p))) \<and>
              (\<forall>p < 88. ?Y3 ! s ! p =
                 (let a0 = active self (drawn_start self g s + ?P) 0 p;
                      a1 = active self (drawn_start self g s + ?P) 1 p
                  in if a0 \<and> a1 then Finite 0 else if a1 then Finite 1
                     else if a0 then Finite (- 1) else NaN))"
    if s: "s < nat n" for s
  proof -
    have lW: "length (?W s) = ?m" using sample_windows_length[OF P assms(2)] .
    have m0: "0 < ?m" using P by simp
    have Hs: "H0 ! s = map (\<lambda>win. win ! 0) (?W s)" "H1 ! s = map (\<lambda>win. win ! 1) (?W s)"
      using s by (simp_all add: H0_def H1_def hand_of_def)
    have Xs: "?X ! s = map2 (map2 (\<or>)) (H0 ! s) (H1 ! s)"
      using s by (simp add: logical_or_def lH)
    have Bs: "?B ! s = map2 (map2 (\<and>)) (H0 ! s) (H1 ! s)"
      using s by (simp add: B_def logical_and_def lH)
    have lXs: "length (?X ! s) = ?m" by (simp add: Xs Hs lW)
    have lBs: "length (?B ! s) = ?m" by (simp add: Bs Hs lW)
    have cellW: "length (?W s ! j ! h) = 88"
      "\<And>p. p < 88 \<Longrightarrow> ?W s ! j ! h ! p = active self (drawn_start self g s + int j) h p"
      if "j < ?m" "h < 2" for j h
      using sample_windows_cell[OF assms(1,2) that] by simp_all
    have Xj: "?X ! s ! j = map2 (\<or>) (?W s ! j ! 0) (?W s ! j ! 1)" if "j < ?m" for j
      using that by (simp add: Xs Hs lW)
    have Bj: "?B ! s ! j = map2 (\<and>) (?W s ! j ! 0) (?W s ! j ! 1)" if "j < ?m" for j
      using that by (simp add: Bs Hs lW)
    have Xc: "length (?X ! s ! j) = 88 \<and>
                 (\<forall>p < 88. ?X ! s ! j ! p =
                    (active self (drawn_start self g s + int j) 0 p \<or>
                     active self (drawn_start self g s + int j) 1 p))" if j: "j < ?m" for j
      using cellW(1)[OF j, of 0] cellW(1)[OF j, of 1] cellW(2)[OF j, of 0] cellW(2)[OF j, of 1]
      by (simp add: Xj[OF j])
    have lastj: "nat ?P < ?m" "int (nat ?P) = ?P" using P by simp_all
    define r0 where "r0 = ?W s ! nat ?P ! 0"
    define r1 where "r1 = ?W s ! nat ?P ! 1"
    have Lh: "last_window H0 ! s = r0" "last_window H1 ! s = r1"
    proof -
      have "?W s \<noteq> []" using lW m0 by auto
      then have "last (map (\<lambda>win. win ! h) (?W s)) = ?W s ! (length (?W s) - 1) ! h" for h
        by (simp add: last_conv_nth)
      moreover have "length (?W s) - 1 = nat ?P" using lW P by simp
      ultimately show "last_window H0 ! s = r0" "last_window H1 ! s = r1"
        unfolding r0_def r1_def using s by (simp_all add: last_window_def lH Hs)
    qed
    have LB: "last_window ?B ! s = map2 (\<and>) r0 r1"
    proof -
      have "?B ! s \<noteq> []" using lBs m0 by auto
      then have "last (?B ! s) = ?B ! s ! (length (?B ! s) - 1)" by (simp add: last_conv_nth)
      moreover have "length (?B ! s) - 1 = nat ?P" using lBs P by simp
      ultimately show ?thesis
        unfolding r0_def r1_def using s Bj[OF lastj(1)] by (simp add: last_window_def lB)
    qed
    have l0: "length r0 = 88" and l1: "length r1 = 88"
      unfolding r0_def r1_def using cellW(1)[OF lastj(1)] by simp_all
    have a0: "r0 ! p = active self (drawn_start self g s + ?P) 0 p"
      and a1: "r1 ! p = active self (drawn_start self g s + ?P) 1 p" if "p < 88" for p
      unfolding r0_def r1_def
      using cellW(2)[OF lastj(1), of 0 p] cellW(2)[OF lastj(1), of 1 p] that lastj(2) by simp_all
    have lY1: "length (?Y1 ! s) = 88" using s by (simp add: mask_assign_length lL lH Lh l0)
    have lY2: "length (?Y2 ! s) = 88" using s by (simp add: mask_assign_length lL lH Lh l1 lY1)
    have lY3: "length (?Y3 ! s) = 88"
      using s by (simp add: mask_assign_length lL lH lB LB l0 l1 lY2)
    have Yc: "?Y3 ! s ! p =
                 (let a0 = active self (drawn_start self g s + ?P) 0 p;
                      a1 = active self (drawn_start self g s + ?P) 1 p
                  in if a0 \<and> a1 then Finite 0 else if a1 then Finite 1
                     else if a0 then Finite (- 1) else NaN)" if p: "p < 88" for p
    proof -
      have y1: "?Y1 ! s ! p = (if r0 ! p then Finite (- 1) else NaN)"
        using s p by (subst mask_assign_nth) (simp_all add: lL lH Lh l0)
      have y2: "?Y2 ! s ! p = (if r1 ! p then Finite 1 else ?Y1 ! s ! p)"
        using s p by (subst mask_assign_nth) (simp_all add: mask_assign_length lL lH Lh l0 l1)
      have y3: "?Y3 ! s ! p = (if r0 ! p \<and> r1 ! p then Finite 0 else ?Y2 ! s ! p)"
        using s p by (subst mask_assign_nth) (simp_all add: mask_assign_length lL lH lB Lh LB l0 l1)
      show ?thesis unfolding y3 y2 y1 using a0[OF p] a1[OF p] by (simp add: Let_def)
    qed
    show ?thesis using lXs lY3 Xc Yc by blast
  qed
  show ?thesis using nb lX lY per by blast
qed


lemma scenario_dataset_ok: "dataset_ok scenario_dataset"
  by (simp add: dataset_ok_def scenario_dataset_def has_shape_def silent_def key39_def)

lemma scenario_dataset_range: "start_range scenario_dataset = 5"
  by (simp add: start_range_def scenario_dataset_def)

text \<open>
  C1: in every batch that \<^verbatim>\<open>next_batch\<close> returns, the label of sample s at pitch offset
  p is read off the last window of the sample's slice, window start + n_windows_past of
  \<^verbatim>\<open>self.data\<close>: -1 when only hand 0 is on there, +1 when only hand 1 is, 0 when both
  are, and NaN when neither is.
\<close>

theorem next_batch_labels:
  assumes "dataset_ok self" and "0 < start_range self" and "0 \<le> n"
  shows "\<exists>x y st'. next_batch n (self, g) = Inr ((x, y), st') \<and> length y = nat n \<and>
           (\<forall>s < nat n. \<forall>p < 88.
              let w = drawn_start self g s + n_windows_past self;
                  a0 = active self w 0 p;
                  a1 = active self w 1 p
              in (a0 \<and> \<not> a1 \<longrightarrow> y ! s ! p = Finite (- 1)) \<and>
                 (\<not> a0 \<and> a1 \<longrightarrow> y ! s ! p = Finite 1) \<and>
                 (a0 \<and> a1 \<longrightarrow> y ! s ! p = Finite 0) \<and>
                 (\<not> a0 \<and> \<not> a1 \<longrightarrow> y ! s ! p = NaN))"
proof -
  from next_batch_cells[OF assms, of g] obtain x y where
    nb: "next_batch n (self, g) = Inr ((x, y), self, \<lambda>i. g (i + nat n))" "length y = nat n"
    and c: "\<And>s p. s < nat n \<Longrightarrow> p < 88 \<Longrightarrow> y ! s ! p =
                 (let a0 = active self (drawn_start self g s + n_windows_past self) 0 p;
                      a1 = active self (drawn_start self g s + n_windows_past self) 1 p
                  in if a0 \<and> a1 then Finite 0 else if a1 then Finite 1
                     else if a0 then Finite (- 1) else NaN)"
    by blast
  have "\<forall>s < nat n. \<forall>p < 88.
              let w = drawn_start self g s + n_windows_past self;
                  a0 = active self w 0 p;
                  a1 = active self w 1 p
              in (a0 \<and> \<not> a1 \<longrightarrow> y ! s ! p = Finite (- 1)) \<and>
                 (\<not> a0 \<and> a1 \<longrightarrow> y ! s ! p = Finite 1) \<and>
                 (a0 \<and> a1 \<longrightarrow> y ! s ! p = Finite 0) \<and>
                 (\<not> a0 \<and> \<not> a1 \<longrightarrow> y ! s ! p = NaN)"
    using c by (simp add: Let_def)
  then show ?thesis using nb by blast
qed

text \<open>
  Four samples whose slices end at windows 2, 3, 4 and 5 of the scenario: the labels at
  offset 39 are -1, 0, +1 and NaN, and the label at offset 40 is NaN.
\<close>

theorem next_batch_labels_witness:
  "dataset_ok scenario_dataset \<and> 0 < start_range scenario_dataset \<and> (0::int) \<le> 4 \<and>
   (\<exists>x y st'. next_batch 4 (scenario_dataset, \<lambda>i. i) = Inr ((x, y), st') \<and>
      y ! 0 ! 39 = Finite (- 1) \<and> y ! 1 ! 39 = Finite 0 \<and> y ! 2 ! 39 = Finite 1 \<and>
      y ! 3 ! 39 = NaN \<and> y ! 0 ! 40 = NaN)"
proof -
  have r: "0 < start_range scenario_dataset" by (simp add: scenario_dataset_range)
  have n: "(0::int) \<le> 4" by simp
  from next_batch_labels[OF scenario_dataset_ok r n, of "\<lambda>i. i"] obtain x y st' where
    nb: "next_batch 4 (scenario_dataset, \<lambda>i. i) = Inr ((x, y), st')"
    and c: "\<forall>s < nat 4. \<forall>p < 88.
              let w = drawn_start scenario_dataset (\<lambda>i. i) s + n_windows_past scenario_dataset;
                  a0 = active scenario_dataset w 0 p;
                  a1 = active scenario_dataset w 1 p
              in (a0 \<and> \<not> a1 \<longrightarrow> y ! s ! p = Finite (- 1)) \<and>
                 (\<not> a0 \<and> a1 \<longrightarrow> y ! s ! p = Finite 1) \<and>
                 (a0 \<and> a1 \<longrightarrow> y ! s ! p = Finite 0) \<and>
                 (\<not> a0 \<and> \<not> a1 \<longrightarrow> y ! s ! p = NaN)"
    by blast
  have d: "drawn_start scenario_dataset (\<lambda>i. i) s = int s" if "s < 5" for s
    using that by (simp add: drawn_start_def scenario_dataset_range)
  have a: "active scenario_dataset 2 0 39" "\<not> active scenario_dataset 2 1 39"
    "active scenario_dataset 3 0 39" "active scenario_dataset 3 1 39"
    "\<not> active scenario_dataset 4 0 39" "active scenario_dataset 4 1 39"
    "\<not> active scenario_dataset 5 0 39" "\<not> active scenario_dataset 5 1 39"
    "\<not> active scenario_dataset 2 0 40" "\<not> active scenario_dataset 2 1 40"
    by (simp_all add: active_def scenario_dataset_def silent_def key39_def)
  have P: "n_windows_past scenario_dataset = 2" by (simp add: scenario_dataset_def)
  have "y ! 0 ! 39 = Finite (- 1)"
    using c[rule_format, of 0 39] a d[of 0] by (simp add: Let_def P)
  moreover have "y ! 1 ! 39 = Finite 0"
    using c[rule_format, of 1 39] a d[of 1] by (simp add: Let_def P)
  moreover have "y ! 2 ! 39 = Finite 1"
    using c[rule_format, of 2 39] a d[of 2] by (simp add: Let_def P)
  moreover have "y ! 3 ! 39 = NaN"
    using c[rule_format, of 3 39] a d[of 3] by (simp add: Let_def P)
  moreover have "y ! 0 ! 40 = NaN"
    using c[rule_format, of 0 40] a d[of 0] by (simp add: Let_def P)
  ultimately show ?thesis using scenario_dataset_ok r nb by auto
qed

text \<open>
  C10: in every batch that \<^verbatim>\<open>next_batch\<close> returns, the label of sample s at pitch
  offset p is NaN exactly when the input \<^verbatim>\<open>batch_x[s, -1, p]\<close> is false, and it is one
  of -1, 0, +1 exactly when that input is true.
\<close>

theorem next_batch_nan_iff_silent:
  assumes "dataset_ok self" and "0 < start_range self" and "0 \<le> n"
  shows "\<exists>x y st'. next_batch n (self, g) = Inr ((x, y), st') \<and>
           length x = nat n \<and> length y = nat n \<and>
           (\<forall>s < nat n. x ! s \<noteq> [] \<and>
              (\<forall>p < 88.
                 (y ! s ! p = NaN) = (\<not> last (x ! s) ! p) \<and>
                 (y ! s ! p \<in> {Finite (- 1), Finite 0, Finite 1}) = (last (x ! s) ! p)))"
proof -
  let ?P = "n_windows_past self"
  from next_batch_cells[OF assms, of g] obtain x y where
    nb: "next_batch n (self, g) = Inr ((x, y), self, \<lambda>i. g (i + nat n))"
      "length x = nat n" "length y = nat n"
    and lx: "\<And>s. s < nat n \<Longrightarrow> length (x ! s) = nat (?P + 1)"
    and cx: "\<And>s j p. s < nat n \<Longrightarrow> j < nat (?P + 1) \<Longrightarrow> p < 88 \<Longrightarrow> x ! s ! j ! p =
                    (active self (drawn_start self g s + int j) 0 p \<or>
                     active self (drawn_start self g s + int j) 1 p)"
    and cy: "\<And>s p. s < nat n \<Longrightarrow> p < 88 \<Longrightarrow> y ! s ! p =
                 (let a0 = active self (drawn_start self g s + ?P) 0 p;
                      a1 = active self (drawn_start self g s + ?P) 1 p
                  in if a0 \<and> a1 then Finite 0 else if a1 then Finite 1
                     else if a0 then Finite (- 1) else NaN)"
    by blast
  have P: "0 \<le> ?P" using assms(1) by (simp add: dataset_ok_def)
  have per: "x ! s \<noteq> [] \<and>
              (\<forall>p < 88.
                 (y ! s ! p = NaN) = (\<not> last (x ! s) ! p) \<and>
                 (y ! s ! p \<in> {Finite (- 1), Finite 0, Finite 1}) = (last (x ! s) ! p))"
    if s: "s < nat n" for s
  proof -
    have ne: "x ! s \<noteq> []" using lx[OF s] P by auto
    have "length (x ! s) - 1 = nat ?P" using lx[OF s] P by simp
    then have l: "last (x ! s) = x ! s ! nat ?P" using ne by (simp add: last_conv_nth)
    have j: "nat ?P < nat (?P + 1)" "int (nat ?P) = ?P" using P by simp_all
    have "(y ! s ! p = NaN) = (\<not> last (x ! s) ! p) \<and>
          (y ! s ! p \<in> {Finite (- 1), Finite 0, Finite 1}) = (last (x ! s) ! p)" if p: "p < 88" for p
      using cx[OF s j(1) p] cy[OF s p] j(2) by (simp add: l Let_def)
    then show ?thesis using ne by blast
  qed
  show ?thesis using nb per by blast
qed

text \<open>
  In the scenario, the label at offset 39 is not NaN for the samples that end at windows
  2, 3 and 4, where the input is true, and is NaN for the sample that ends at window 5.
\<close>

theorem next_batch_nan_iff_silent_witness:
  "dataset_ok scenario_dataset \<and> 0 < start_range scenario_dataset \<and> (0::int) \<le> 4 \<and>
   (\<exists>x y st'. next_batch 4 (scenario_dataset, \<lambda>i. i) = Inr ((x, y), st') \<and>
      length x = 4 \<and> y ! 0 ! 39 \<noteq> NaN \<and> last (x ! 0) ! 39 \<and>
      y ! 3 ! 39 = NaN \<and> \<not> last (x ! 3) ! 39)"
proof -
  have r: "0 < start_range scenario_dataset" by (simp add: scenario_dataset_range)
  have n: "(0::int) \<le> 4" by simp
  from next_batch_nan_iff_silent[OF scenario_dataset_ok r n, of "\<lambda>i. i"] obtain x y st' where
    nb: "next_batch 4 (scenario_dataset, \<lambda>i. i) = Inr ((x, y), st')" "length x = nat 4"
    and c: "\<forall>s < nat 4. x ! s \<noteq> [] \<and>
              (\<forall>p < 88.
                 (y ! s ! p = NaN) = (\<not> last (x ! s) ! p) \<and>
                 (y ! s ! p \<in> {Finite (- 1), Finite 0, Finite 1}) = (last (x ! s) ! p))"
    by blast
  from next_batch_cells[OF scenario_dataset_ok r n, of "\<lambda>i. i"] nb(1) have
    cy: "\<And>s p. s < nat 4 \<Longrightarrow> p < 88 \<Longrightarrow> y ! s ! p =
           (let a0 = active scenario_dataset
                       (drawn_start scenario_dataset (\<lambda>i. i) s + n_windows_past scenario_dataset) 0 p;
                a1 = active scenario_dataset
                       (drawn_start scenario_dataset (\<lambda>i. i) s + n_windows_past scenario_dataset) 1 p
            in if a0 \<and> a1 then Finite 0 else if a1 then Finite 1
               else if a0 then Finite (- 1) else NaN)"
    by auto
  have d: "drawn_start scenario_dataset (\<lambda>i. i) s = int s" if "s < 5" for s
    using that by (simp add: drawn_start_def scenario_dataset_range)
  have a: "active scenario_dataset 2 0 39" "\<not> active scenario_dataset 2 1 39"
    "\<not> active scenario_dataset 5 0 39" "\<not> active scenario_dataset 5 1 39"
    by (simp_all add: active_def scenario_dataset_def silent_def key39_def)
  have P: "n_windows_past scenario_dataset = 2" by (simp add: scenario_dataset_def)
  have y0: "y ! 0 ! 39 = Finite (- 1)" using cy[of 0 39] a d[of 0] by (simp add: Let_def P)
  have y3: "y ! 3 ! 39 = NaN" using cy[of 3 39] a d[of 3] by (simp add: Let_def P)
  have "(y ! 0 ! 39 = NaN) = (\<not> last (x ! 0) ! 39)" "(y ! 3 ! 39 = NaN) = (\<not> last (x ! 3) ! 39)"
    using c by simp_all
  then have "last (x ! 0) ! 39" "\<not> last (x ! 3) ! 39" using y0 y3 by simp_all
  then show ?thesis using scenario_dataset_ok r nb y0 y3 by auto
qed








lemma draw_samples_frame:
  "draw_samples idx hands (self, g) = Inr (hands', self', g') \<Longrightarrow>
     self' = self \<and> g' = (\<lambda>i. g (i + length idx))"
proof (induction idx arbitrary: hands g)
  case Nil
  then show ?case by simp
next
  case (Cons a idx)
  from Cons.prems obtain start g1 h1 where
    r: "randrange (int (length (data self)) - n_windows_past self) g = Inr (start, g1)"
    and d: "draw_samples idx h1 (self, g1) = Inr (hands', self', g')"
    by (auto split: sum.splits)
  have g1: "g1 = (\<lambda>i. g (Suc i))" using r by (auto simp add: randrange_def split: if_splits)
  from Cons.IH[OF d] show ?case by (simp add: g1)
qed

text \<open>
  C9: a call of \<^verbatim>\<open>next_batch\<close> that returns leaves the object as it was, so
  \<^verbatim>\<open>self.data\<close> and \<^verbatim>\<open>self.n_windows_past\<close> are the same before and after; the only
  state that changes is the random generator, which has made \<^verbatim>\<open>n_samples\<close> draws.
\<close>

theorem next_batch_frame:
  assumes "next_batch n (self, g) = Inr (b, self', g')"
  shows "self' = self \<and> data self' = data self \<and> n_windows_past self' = n_windows_past self \<and>
         g' = (\<lambda>i. g (i + nat n))"
proof -
  from assms obtain hands0 hands where
    d: "draw_samples [0..<nat n] hands0 (self, g) = Inr (hands, self', g')"
    by (auto simp add: next_batch_def Let_def split: sum.splits if_splits)
  from draw_samples_frame[OF d] show ?thesis by simp
qed

text \<open>A batch of four samples from the scenario returns, with the dataset unchanged.\<close>

theorem next_batch_frame_witness:
  "\<exists>b self' g'. next_batch 4 (scenario_dataset, \<lambda>i. i) = Inr (b, self', g') \<and>
      self' = scenario_dataset \<and> data self' = data scenario_dataset \<and>
      n_windows_past self' = 2 \<and> g' = (\<lambda>i. i + 4)"
proof -
  have r: "0 < start_range scenario_dataset" by (simp add: scenario_dataset_range)
  from next_batch_cells[OF scenario_dataset_ok r, of 4 "\<lambda>i. i"] obtain b self' g' where
    nb: "next_batch 4 (scenario_dataset, \<lambda>i. i) = Inr (b, self', g')"
    by auto
  from next_batch_frame[OF nb] have
    "self' = scenario_dataset" "data self' = data scenario_dataset"
    "n_windows_past self' = 2" "g' = (\<lambda>i. i + 4)"
    by (simp_all add: scenario_dataset_def)
  then show ?thesis using nb by blast
qed

section \<open>Properties of convert\<close>

lemma npy_name_inject: "(npy_name ev f ms = npy_name ev g ms) = (f = g)"
  by (simp add: npy_name_def)

lemma convert_files_frame:
  "convert_files ev ms sps ow files w = Inr w' \<Longrightarrow>
   \<forall>f \<in> set files. x \<noteq> npy_name ev f ms \<Longrightarrow> disk w' x = disk w x"
proof (induction files arbitrary: w)
  case Nil
  then show ?case by simp
next
  case (Cons a files)
  have x: "x \<noteq> npy_name ev a ms" and xs: "\<forall>f \<in> set files. x \<noteq> npy_name ev f ms"
    using Cons.prems(2) by simp_all
  show ?case
  proof (cases "ow \<or> disk w (npy_name ev a ms) = None")
    case True
    with Cons.prems(1) obtain midi hands where
      r: "convert_files ev ms sps ow files
            (w\<lparr>log := log w @ [converting_msg a],
               disk := (disk w)(npy_name ev a ms \<mapsto> NpyFile hands)\<rparr>) = Inr w'"
      by (auto simp add: Let_def split: sum.splits)
    from Cons.IH[OF r xs] x show ?thesis by simp
  next
    case False
    with Cons.prems(1) have "convert_files ev ms sps ow files w = Inr w'"
      by (simp add: Let_def)
    from Cons.IH[OF this xs] show ?thesis .
  qed
qed

lemma convert_files_keep:
  "convert_files ev ms sps False files w = Inr w' \<Longrightarrow> disk w x \<noteq> None \<Longrightarrow> disk w' x = disk w x"
proof (induction files arbitrary: w)
  case Nil
  then show ?case by simp
next
  case (Cons a files)
  show ?case
  proof (cases "disk w (npy_name ev a ms) = None")
    case True
    with Cons.prems(1) obtain midi hands where
      r: "convert_files ev ms sps False files
            (w\<lparr>log := log w @ [converting_msg a],
               disk := (disk w)(npy_name ev a ms \<mapsto> NpyFile hands)\<rparr>) = Inr w'"
      by (auto simp add: Let_def split: sum.splits)
    have ne: "x \<noteq> npy_name ev a ms" using True Cons.prems(2) by auto
    then have "disk (w\<lparr>log := log w @ [converting_msg a],
               disk := (disk w)(npy_name ev a ms \<mapsto> NpyFile hands)\<rparr>) x \<noteq> None"
      using Cons.prems(2) by simp
    from Cons.IH[OF r this] ne show ?thesis by simp
  next
    case False
    with Cons.prems(1) have "convert_files ev ms sps False files w = Inr w'"
      by (simp add: Let_def)
    from Cons.IH[OF this Cons.prems(2)] show ?thesis .
  qed
qed

lemma converting_msg_inject: "(converting_msg f = converting_msg g) = (f = g)"
  by (simp add: converting_msg_def)

lemma convert_files_log:
  "convert_files ev ms sps ow files w = Inr w' \<Longrightarrow>
   \<exists>added. log w' = log w @ added \<and>
     set added = converting_msg ` {f \<in> set files. ow \<or> disk w (npy_name ev f ms) = None}"
proof (induction files arbitrary: w)
  case Nil
  then show ?case by simp
next
  case (Cons a files)
  show ?case
  proof (cases "ow \<or> disk w (npy_name ev a ms) = None")
    case True
    let ?w1 = "\<lambda>hands. w\<lparr>log := log w @ [converting_msg a],
               disk := (disk w)(npy_name ev a ms \<mapsto> NpyFile hands)\<rparr>"
    from True Cons.prems(1) obtain midi hands where
      r: "convert_files ev ms sps ow files (?w1 hands) = Inr w'"
      by (auto simp add: Let_def split: sum.splits)
    from Cons.IH[OF r] obtain added where
      a: "log w' = log (?w1 hands) @ added"
         "set added = converting_msg ` {f \<in> set files. ow \<or> disk (?w1 hands) (npy_name ev f ms) = None}"
      by blast
    have "log w' = log w @ (converting_msg a # added)" using a(1) by simp
    moreover have "set (converting_msg a # added)
        = converting_msg ` {f \<in> set (a # files). ow \<or> disk w (npy_name ev f ms) = None}"
      using a(2) True by (auto simp add: npy_name_inject)
    ultimately show ?thesis by blast
  next
    case False
    with Cons.prems(1) have "convert_files ev ms sps ow files w = Inr w'"
      by (simp add: Let_def)
    from Cons.IH[OF this] obtain added where
      a: "log w' = log w @ added"
         "set added = converting_msg ` {f \<in> set files. ow \<or> disk w (npy_name ev f ms) = None}"
      by blast
    have "{f \<in> set files. ow \<or> disk w (npy_name ev f ms) = None}
          = {f \<in> set (a # files). ow \<or> disk w (npy_name ev f ms) = None}"
      using False by auto
    then show ?thesis using a by auto
  qed
qed


lemma PrettyMIDI_open_Inr:
  "PrettyMIDI_open w f = Inr midi \<Longrightarrow> disk w f = Some (MidiFile midi)"
  by (auto simp add: PrettyMIDI_open_def split: option.splits file_content.splits)

lemma convert_files_artifact:
  assumes "convert_files ev ms sps ow files w = Inr w'"
    and "\<forall>g \<in> set files. npy_name ev g ms \<notin> set files"
    and "f \<in> set files"
    and "ow \<or> disk w (npy_name ev f ms) = None"
  shows "\<exists>midi t. disk w f = Some (MidiFile midi) \<and> encode midi sps = Inr t \<and>
           disk w' (npy_name ev f ms) = Some (NpyFile t)"
  using assms
proof (induction files arbitrary: w)
  case Nil
  then show ?case by simp
next
  case (Cons a files)
  have dis: "\<forall>g \<in> set files. npy_name ev g ms \<notin> set files"
    and na: "npy_name ev a ms \<notin> set files" "npy_name ev a ms \<noteq> a" "npy_name ev a ms \<noteq> f"
    using Cons.prems(2,3) by auto
  show ?case
  proof (cases "ow \<or> disk w (npy_name ev a ms) = None")
    case True
    from True Cons.prems(1) obtain midi hands where
      o: "PrettyMIDI_open w a = Inr midi" and e: "encode midi sps = Inr hands"
      and r: "convert_files ev ms sps ow files
               (w\<lparr>log := log w @ [converting_msg a],
                  disk := (disk w)(npy_name ev a ms \<mapsto> NpyFile hands)\<rparr>) = Inr w'"
      by (auto simp add: Let_def split: sum.splits)
    let ?w1 = "w\<lparr>log := log w @ [converting_msg a],
                  disk := (disk w)(npy_name ev a ms \<mapsto> NpyFile hands)\<rparr>"
    have d1: "disk ?w1 x = disk w x" if "x \<noteq> npy_name ev a ms" for x using that by simp
    show ?thesis
    proof (cases "f \<in> set files")
      case True
      show ?thesis
      proof (cases "ow \<or> disk ?w1 (npy_name ev f ms) = None")
        case True
        from Cons.IH[OF r dis \<open>f \<in> set files\<close> True] d1[of f] na(3) show ?thesis by auto
      next
        case False
        then have now: "\<not> ow" and ex: "disk ?w1 (npy_name ev f ms) \<noteq> None" by simp_all
        have fa: "f = a"
        proof (rule ccontr)
          assume "f \<noteq> a"
          then have "disk ?w1 (npy_name ev f ms) = disk w (npy_name ev f ms)"
            by (simp add: npy_name_inject)
          then show False using ex now Cons.prems(4) by simp
        qed
        have "disk w' (npy_name ev f ms) = disk ?w1 (npy_name ev f ms)"
          using convert_files_keep[of ev ms sps files ?w1 w'] r now ex by simp
        then show ?thesis using fa PrettyMIDI_open_Inr[OF o] e by simp
      qed
    next
      case False
      then have fa: "f = a" using Cons.prems(3) by simp
      have "\<forall>g \<in> set files. npy_name ev a ms \<noteq> npy_name ev g ms"
        using False fa by (auto simp add: npy_name_inject)
      from convert_files_frame[OF r this] fa PrettyMIDI_open_Inr[OF o] e show ?thesis by simp
    qed
  next
    case False
    with Cons.prems(1) have r: "convert_files ev ms sps ow files w = Inr w'"
      by (simp add: Let_def)
    have "f \<noteq> a" using False Cons.prems(4) by auto
    then have "f \<in> set files" using Cons.prems(3) by simp
    from Cons.IH[OF r dis this Cons.prems(4)] show ?thesis .
  qed
qed


lemma scenario_files:
  "get_files_from_path scenario_env scenario_world ''data'' [''*.mid'', ''*.midi'']
   = Inr [''data/a.mid'', ''data/b.mid'']"
  by (simp add: get_files_from_path_def scenario_env_def scenario_world_def os_path_join_def)

lemma scenario_encode: "\<exists>t. encode scenario_midi 50 = Inr t"
proof -
  have "valid_tracks scenario_midi"
    by (simp add: valid_tracks_def scenario_midi_def valid_note_def)
  from encode_valid[OF this, of 50] show ?thesis by auto
qed

text \<open>
  C7: in a run of \<^verbatim>\<open>convert\<close> that returns, a file of the list is encoded (and the
  conversion logged) exactly when \<^verbatim>\<open>overwrite\<close> is set or no artifact of its name and
  \<^verbatim>\<open>ms_window\<close> exists when the run starts; when an artifact exists and \<^verbatim>\<open>overwrite\<close> is
  not set, the artifact after the run is the one before it. Where the file is encoded and
  no artifact name is itself a file of the list, the artifact after the run is the
  encoding of the file.
\<close>

theorem convert_overwrite_policy:
  assumes "convert ev path ms_window overwrite w = Inr w'"
    and "get_files_from_path ev w path [''*.mid'', ''*.midi''] = Inr midi_files"
    and "midi_file \<in> set midi_files"
  shows "((converting_msg midi_file \<in> set (drop (length (log w)) (log w')))
            = (overwrite \<or> disk w (npy_name ev midi_file ms_window) = None)) \<and>
         (\<not> overwrite \<and> disk w (npy_name ev midi_file ms_window) \<noteq> None \<longrightarrow>
            disk w' (npy_name ev midi_file ms_window) = disk w (npy_name ev midi_file ms_window)) \<and>
         ((overwrite \<or> disk w (npy_name ev midi_file ms_window) = None) \<and>
          (\<forall>g \<in> set midi_files. npy_name ev g ms_window \<notin> set midi_files) \<longrightarrow>
            (\<exists>midi t. disk w midi_file = Some (MidiFile midi) \<and>
                       encode midi (1000 / ms_window) = Inr t \<and>
                       disk w' (npy_name ev midi_file ms_window) = Some (NpyFile t)))"
proof -
  let ?npy = "npy_name ev midi_file ms_window"
  have cf: "convert_files ev ms_window (1000 / ms_window) overwrite midi_files w = Inr w'"
    using assms(1,2) by (simp add: convert_def split: if_splits)
  from convert_files_log[OF cf] obtain added where
    a: "log w' = log w @ added"
       "set added = converting_msg ` {f \<in> set midi_files. overwrite \<or> disk w (npy_name ev f ms_window) = None}"
    by blast
  have "(converting_msg midi_file \<in> set added) = (overwrite \<or> disk w ?npy = None)"
    using a(2) assms(3) by (auto simp add: converting_msg_inject)
  then have 1: "(converting_msg midi_file \<in> set (drop (length (log w)) (log w')))
            = (overwrite \<or> disk w ?npy = None)"
    using a(1) by simp
  have 2: "disk w' ?npy = disk w ?npy" if "\<not> overwrite" "disk w ?npy \<noteq> None"
    using convert_files_keep[of ev ms_window "1000 / ms_window" midi_files w w' ?npy] cf that by simp
  have 3: "\<exists>midi t. disk w midi_file = Some (MidiFile midi) \<and>
                       encode midi (1000 / ms_window) = Inr t \<and> disk w' ?npy = Some (NpyFile t)"
    if "overwrite \<or> disk w ?npy = None" "\<forall>g \<in> set midi_files. npy_name ev g ms_window \<notin> set midi_files"
    using convert_files_artifact[OF cf that(2) assms(3) that(1)] .
  show ?thesis using 1 2 3 by blast
qed

text \<open>
  Without \<^verbatim>\<open>overwrite\<close>, the file without an artifact is encoded, and the file with an
  artifact is not: its artifact stays the array without windows.
\<close>

theorem convert_overwrite_policy_witness:
  "\<exists>w'. convert scenario_env ''data'' 20 False scenario_world = Inr w' \<and>
     get_files_from_path scenario_env scenario_world ''data'' [''*.mid'', ''*.midi'']
       = Inr [''data/a.mid'', ''data/b.mid''] \<and>
     converting_msg ''data/a.mid'' \<in> set (drop (length (log scenario_world)) (log w')) \<and>
     converting_msg ''data/b.mid'' \<notin> set (drop (length (log scenario_world)) (log w')) \<and>
     disk w' ''data/b.mid_20ms.npy'' = Some (NpyFile []) \<and>
     (\<exists>t. encode scenario_midi (1000 / 20) = Inr t \<and> disk w' ''data/a.mid_20ms.npy'' = Some (NpyFile t))"
proof -
  from scenario_encode obtain t where t: "encode scenario_midi 50 = Inr t" by blast
  let ?w' = "scenario_world\<lparr>log := log scenario_world @ [converting_msg ''data/a.mid''],
               disk := (disk scenario_world)(''data/a.mid_20ms.npy'' \<mapsto> NpyFile t)\<rparr>"
  have c: "convert scenario_env ''data'' 20 False scenario_world = Inr ?w'"
    by (simp add: convert_def scenario_files)
       (simp add: npy_name_def PrettyMIDI_open_def t scenario_env_def scenario_world_def)
  have na: "npy_name scenario_env ''data/a.mid'' 20 = ''data/a.mid_20ms.npy''"
    and nb: "npy_name scenario_env ''data/b.mid'' 20 = ''data/b.mid_20ms.npy''"
    by (simp_all add: npy_name_def scenario_env_def)
  have da: "disk scenario_world ''data/a.mid_20ms.npy'' = None"
    and db: "disk scenario_world ''data/b.mid_20ms.npy'' = Some (NpyFile [])"
    and dm: "disk scenario_world ''data/a.mid'' = Some (MidiFile scenario_midi)"
    by (simp_all add: scenario_world_def)
  have "converting_msg ''data/a.mid'' \<in> set (drop (length (log scenario_world)) (log ?w'))"
    "\<exists>t. encode scenario_midi (1000 / 20) = Inr t \<and> disk ?w' ''data/a.mid_20ms.npy'' = Some (NpyFile t)"
    using convert_overwrite_policy[OF c scenario_files, of "''data/a.mid''"] na nb da dm by simp_all
  moreover have "converting_msg ''data/b.mid'' \<notin> set (drop (length (log scenario_world)) (log ?w'))"
    "disk ?w' ''data/b.mid_20ms.npy'' = Some (NpyFile [])"
    using convert_overwrite_policy[OF c scenario_files, of "''data/b.mid''"] nb db by simp_all
  ultimately show ?thesis using c scenario_files by blast
qed


text \<open>
  C8: the array that a run of \<^verbatim>\<open>convert\<close> with \<^verbatim>\<open>overwrite\<close> saves for a file is the
  encoding of what the file holds at the given rate, and nothing else enters it: two runs
  with the same \<^verbatim>\<open>ms_window\<close>, from any two states of the disk in which the file holds
  the same tracks, save the same array. On the disk, a run changes the artifacts of its
  files and nothing else. (No artifact name is itself a file of the list.)
\<close>

theorem convert_deterministic:
  assumes "convert ev path ms_window True w1 = Inr w1'"
    and "convert ev path ms_window True w2 = Inr w2'"
    and "get_files_from_path ev w1 path [''*.mid'', ''*.midi''] = Inr midi_files"
    and "get_files_from_path ev w2 path [''*.mid'', ''*.midi''] = Inr midi_files"
    and "\<forall>g \<in> set midi_files. npy_name ev g ms_window \<notin> set midi_files"
    and "midi_file \<in> set midi_files"
    and "disk w1 midi_file = disk w2 midi_file"
  shows "disk w1' (npy_name ev midi_file ms_window) = disk w2' (npy_name ev midi_file ms_window) \<and>
         (\<exists>midi t. disk w1 midi_file = Some (MidiFile midi) \<and>
                    encode midi (1000 / ms_window) = Inr t \<and>
                    disk w1' (npy_name ev midi_file ms_window) = Some (NpyFile t)) \<and>
         (\<forall>x. (\<forall>g \<in> set midi_files. x \<noteq> npy_name ev g ms_window) \<longrightarrow> disk w1' x = disk w1 x)"
proof -
  let ?npy = "npy_name ev midi_file ms_window" and ?rate = "1000 / ms_window"
  have c1: "convert_files ev ms_window ?rate True midi_files w1 = Inr w1'"
    using assms(1,3) by (simp add: convert_def split: if_splits)
  have c2: "convert_files ev ms_window ?rate True midi_files w2 = Inr w2'"
    using assms(2,4) by (simp add: convert_def split: if_splits)
  from convert_files_artifact[OF c1 assms(5,6)] obtain m1 t1 where
    a1: "disk w1 midi_file = Some (MidiFile m1)" "encode m1 ?rate = Inr t1"
        "disk w1' ?npy = Some (NpyFile t1)"
    by blast
  from convert_files_artifact[OF c2 assms(5,6)] obtain m2 t2 where
    a2: "disk w2 midi_file = Some (MidiFile m2)" "encode m2 ?rate = Inr t2"
        "disk w2' ?npy = Some (NpyFile t2)"
    by blast
  have "m1 = m2" using a1(1) a2(1) assms(7) by simp
  then have "t1 = t2" using a1(2) a2(2) by simp
  then have "disk w1' ?npy = disk w2' ?npy" using a1(3) a2(3) by simp
  moreover have "disk w1' x = disk w1 x" if "\<forall>g \<in> set midi_files. x \<noteq> npy_name ev g ms_window" for x
    using convert_files_frame[OF c1 that] .
  ultimately show ?thesis using a1 by blast
qed

text \<open>
  Two runs in a row over the directory: the second run starts from the disk that the
  first one left, with both artifacts in place, and saves the same arrays again.
\<close>

theorem convert_deterministic_witness:
  "\<exists>w1' w2'. convert scenario_env ''data'' 20 True scenario_world = Inr w1' \<and>
      convert scenario_env ''data'' 20 True w1' = Inr w2' \<and>
      disk w1' ''data/a.mid_20ms.npy'' = disk w2' ''data/a.mid_20ms.npy'' \<and>
      disk w1' ''data/b.mid_20ms.npy'' = disk w2' ''data/b.mid_20ms.npy'' \<and>
      disk w1' ''data/b.mid_20ms.npy'' \<noteq> disk scenario_world ''data/b.mid_20ms.npy'' \<and>
      disk w1' ''data/a.mid'' = disk scenario_world ''data/a.mid''"
proof -
  from scenario_encode obtain t where t: "encode scenario_midi 50 = Inr t" by blast
  let ?d1 = "(disk scenario_world)(''data/a.mid_20ms.npy'' \<mapsto> NpyFile t,
                                   ''data/b.mid_20ms.npy'' \<mapsto> NpyFile t)"
  let ?w1 = "\<lparr>disk = ?d1, log = [converting_msg ''data/a.mid'', converting_msg ''data/b.mid'']\<rparr>"
  let ?w2 = "\<lparr>disk = ?d1,
              log = [converting_msg ''data/a.mid'', converting_msg ''data/b.mid'',
                     converting_msg ''data/a.mid'', converting_msg ''data/b.mid'']\<rparr>"
  let ?files = "[''data/a.mid'', ''data/b.mid'']"
  have f2: "get_files_from_path scenario_env ?w1 ''data'' [''*.mid'', ''*.midi''] = Inr ?files"
    by (simp add: get_files_from_path_def scenario_env_def scenario_world_def os_path_join_def)
  have c1: "convert scenario_env ''data'' 20 True scenario_world = Inr ?w1"
    by (simp add: convert_def scenario_files)
       (simp add: npy_name_def PrettyMIDI_open_def t scenario_env_def scenario_world_def)
  have c2: "convert scenario_env ''data'' 20 True ?w1 = Inr ?w2"
    by (simp add: convert_def f2)
       (simp add: npy_name_def PrettyMIDI_open_def t scenario_env_def scenario_world_def)
  have dis: "\<forall>g \<in> set ?files. npy_name scenario_env g 20 \<notin> set ?files"
    by (simp add: npy_name_def)
  have same: "disk scenario_world ''data/a.mid'' = disk ?w1 ''data/a.mid''"
    "disk scenario_world ''data/b.mid'' = disk ?w1 ''data/b.mid''"
    by simp_all
  have na: "npy_name scenario_env ''data/a.mid'' 20 = ''data/a.mid_20ms.npy''"
    and nb: "npy_name scenario_env ''data/b.mid'' 20 = ''data/b.mid_20ms.npy''"
    by (simp_all add: npy_name_def scenario_env_def)
  have "disk ?w1 ''data/a.mid_20ms.npy'' = disk ?w2 ''data/a.mid_20ms.npy''"
    "disk ?w1 ''data/a.mid'' = disk scenario_world ''data/a.mid''"
    using convert_deterministic[OF c1 c2 scenario_files f2 dis _ same(1)] na nb by simp_all
  moreover have "disk ?w1 ''data/b.mid_20ms.npy'' = disk ?w2 ''data/b.mid_20ms.npy''"
    using convert_deterministic[OF c1 c2 scenario_files f2 dis _ same(2)] nb by simp
  moreover have "disk ?w1 ''data/b.mid_20ms.npy'' \<noteq> disk scenario_world ''data/b.mid_20ms.npy''"
  proof -
    have "int (length t) = \<lceil>end_time scenario_midi * 50\<rceil>"
      using encode_valid[of scenario_midi 50] t
      by (simp add: valid_tracks_def scenario_midi_def valid_note_def)
    then have "t \<noteq> []" by (auto simp add: scenario_midi_def)
    then show ?thesis by (simp add: scenario_world_def)
  qed
  ultimately show ?thesis using c1 c2 by blast
qed












section \<open>The constructor establishes the invariant\<close>

lemma has_shape_append: "has_shape (a @ b) = (has_shape a \<and> has_shape b)"
  by (auto simp add: has_shape_def)

lemma has_shape_concat: "\<forall>a \<in> set arrays. has_shape a \<Longrightarrow> has_shape (concat arrays)"
  by (auto simp add: has_shape_def)

lemma has_shape_to_float: "has_shape a \<Longrightarrow> has_shape (to_float a)"
  by (auto simp add: has_shape_def to_float_def)

lemma Dataset_init_ok:
  assumes "Dataset_init ev w path n_past = Inr self"
  shows "dataset_ok self \<and> n_windows_past self = n_past \<and>
         (\<exists>content. has_shape content \<and>
            data self = replicate (nat n_past) (replicate 2 (replicate 88 0)) @ content @
                        replicate (nat n_past) (replicate 2 (replicate 88 0)))"
proof -
  from assms obtain npy_files arrays where
    P: "0 \<le> n_past" and sh: "\<forall>a \<in> set arrays. has_shape a"
    and self: "self = \<lparr>n_windows_past = n_past,
                 data = replicate (nat n_past) (replicate 2 (replicate 88 0)) @
                        to_float (concat arrays) @
                        replicate (nat n_past) (replicate 2 (replicate 88 0))\<rparr>"
    by (auto simp add: Dataset_init_def zeros_float_def split: sum.splits if_splits)
  have c: "has_shape (to_float (concat arrays))"
    using has_shape_to_float[OF has_shape_concat[OF sh]] .
  have "dataset_ok self"
    using P c by (simp add: self dataset_ok_def has_shape_append has_shape_replicate)
  then show ?thesis using c by (auto simp add: self)
qed

end
